theory Spec2Isabelle
  imports Main "HOL-Library.Word"
begin

unbundle bit_operations_syntax

section \<open>The zip view of \<^verbatim>\<open>common/main/d_zip.h\<close>\<close>

text \<open>
  The header is a C++ template library.  Template parameters become ordinary
  arguments, a parameter pack becomes a list, a \<^verbatim>\<open>std::index_sequence\<close> becomes a
  list of indices, and a constraint that is not satisfied (or a type that is
  incomplete) becomes an error value.  Undefined behaviour of the underlying
  iterators (reading or stepping past the end of a sequence) is an error value
  as well.
\<close>

datatype error =
  Constraints_not_satisfied
  | Incomplete_type
  | Undefined_behaviour

subsection \<open>Selector mask\<close>

text \<open>\<^verbatim>\<open>enum class zip_sequence_length_selector : uint32_t\<close>.\<close>

type_synonym zip_sequence_length_selector = "32 word"

text \<open>
  \<^verbatim>\<open>examine_zip_element<examine_end_range, N>\<close>:
  \<^verbatim>\<open>N < 32 && (static_cast<uint32_t>(examine_end_range) & (1u << N))\<close>.
\<close>

definition examine_zip_element :: "zip_sequence_length_selector \<Rightarrow> nat \<Rightarrow> bool" where
  "examine_zip_element examine_end_range N =
     (N < 32 \<and> (examine_end_range AND push_bit N 1) \<noteq> 0)"

subsection \<open>Static sizes\<close>

text \<open>
  A static size is \<^verbatim>\<open>std::integral_constant<std::size_t, n>\<close> (\<open>Some n\<close>) or
  \<^verbatim>\<open>std::nullptr_t\<close> (\<open>None\<close>).

  \<^verbatim>\<open>get_examined_static_size\<close> keeps the size of a selected index and replaces
  the size of every other index by \<^verbatim>\<open>std::nullptr_t\<close>.  The index pack and the
  size pack are expanded together.
\<close>

fun get_examined_static_size ::
  "zip_sequence_length_selector \<Rightarrow> nat list \<Rightarrow> nat option list \<Rightarrow> nat option list" where
  "get_examined_static_size examine_end_range (indexN # indices) (sizeN # sizes) =
     (if examine_zip_element examine_end_range indexN then sizeN else None)
       # get_examined_static_size examine_end_range indices sizes"
| "get_examined_static_size examine_end_range _ _ = []"

text \<open>
  \<^verbatim>\<open>minimum_static_size\<close>: the primary template is declared and never defined,
  so the empty tuple has no member \<^verbatim>\<open>type\<close>.  The four partial specialisations
  follow in the order of the header.
\<close>

fun minimum_static_size :: "nat option list \<Rightarrow> error + nat option" where
  "minimum_static_size [] = Inl Incomplete_type"
| "minimum_static_size [size'] = Inr size'"
| "minimum_static_size (None # size1 # sizeN) = minimum_static_size (size1 # sizeN)"
| "minimum_static_size (Some size0 # None # sizeN) = minimum_static_size (Some size0 # sizeN)"
| "minimum_static_size (Some size0 # Some size1 # sizeN) =
     minimum_static_size ((if size0 < size1 then Some size0 else Some size1) # sizeN)"

subsection \<open>Ranges and their iterators\<close>

text \<open>
  A zipped range is a borrowed sequence of elements.  \<^verbatim>\<open>get_static_size\<close> has
  three overloads: a built-in array \<^verbatim>\<open>T[N]\<close> has the static size \<open>N\<close>; every other
  type for which \<^verbatim>\<open>std::tuple_size\<close> is defined has that tuple size; and every
  remaining type falls to the variadic overload, which returns
  \<^verbatim>\<open>std::nullptr_t\<close>.  For a built-in array and a \<^verbatim>\<open>std::array\<close> the static size
  is the number of elements (\<open>Static_array\<close>).  For another tuple-like range it
  need not be: a \<^verbatim>\<open>std::ranges::subrange\<close> has the tuple size 2 whatever number of
  elements it spans (\<open>Tuple_like\<close>, with the tuple size as first argument).
\<close>

datatype 'a range =
  Static_array "'a list"
  | Tuple_like nat "'a list"
  | Dynamic_range "'a list"

fun elements :: "'a range \<Rightarrow> 'a list" where
  "elements (Static_array xs) = xs"
| "elements (Tuple_like n xs) = xs"
| "elements (Dynamic_range xs) = xs"

fun get_static_size :: "'a range \<Rightarrow> nat option" where
  "get_static_size (Static_array xs) = Some (length xs)"
| "get_static_size (Tuple_like n xs) = Some n"
| "get_static_size (Dynamic_range xs) = None"

text \<open>
  An iterator into a range is a pointer: the sequence it points into and an
  offset from its start.  \<^verbatim>\<open>std::begin\<close> is offset 0 and \<^verbatim>\<open>std::ranges::end\<close> the
  offset one past the last element.  A sequence is known by its elements, so
  two iterators are equal when they stand at the same offset of sequences with
  the same elements; the code compares addresses, which agrees for iterators
  into one sequence, the only comparison a view and its iterators make.
\<close>

record 'a range_iterator =
  underlying :: "'a list"
  position :: nat

definition range_begin :: "'a range \<Rightarrow> 'a range_iterator" where
  "range_begin r = \<lparr>underlying = elements r, position = 0\<rparr>"

definition range_end :: "'a range \<Rightarrow> 'a range_iterator" where
  "range_end r = \<lparr>underlying = elements r, position = length (elements r)\<rparr>"

text \<open>\<^verbatim>\<open>++it\<close>: stepping an iterator that is already at the end is undefined.\<close>

definition pre_increment :: "'a range_iterator \<Rightarrow> error + 'a range_iterator" where
  "pre_increment it =
     (if position it < length (underlying it)
      then Inr (it\<lparr>position := position it + 1\<rparr>)
      else Inl Undefined_behaviour)"

text \<open>\<^verbatim>\<open>*it\<close>: reading at the end is undefined.\<close>

definition dereference :: "'a range_iterator \<Rightarrow> error + 'a" where
  "dereference it =
     (if position it < length (underlying it)
      then Inr (underlying it ! position it)
      else Inl Undefined_behaviour)"

text \<open>\<^verbatim>\<open>l - r\<close> on iterators: a signed distance, defined inside one sequence only.\<close>

definition difference :: "'a range_iterator \<Rightarrow> 'a range_iterator \<Rightarrow> error + int" where
  "difference l r =
     (if underlying l = underlying r
      then Inr (int (position l) - int (position r))
      else Inl Undefined_behaviour)"

subsection \<open>Tuples\<close>

text \<open>
  \<^verbatim>\<open>std::get<N>(t)\<close>: an index outside the tuple does not compile.
\<close>

definition std_get :: "nat \<Rightarrow> 'b list \<Rightarrow> error + 'b" where
  "std_get N t = (if N < length t then Inr (t ! N) else Inl Constraints_not_satisfied)"

text \<open>The results of a pack expansion, in order; the first failure wins.\<close>

fun expand_pack :: "(error + 'b) list \<Rightarrow> error + 'b list" where
  "expand_pack [] = Inr []"
| "expand_pack (Inl e # rest) = Inl e"
| "expand_pack (Inr v # rest) =
     (case expand_pack rest of Inl e \<Rightarrow> Inl e | Inr vs \<Rightarrow> Inr (v # vs))"

subsection \<open>\<^verbatim>\<open>namespace d_zip::detail\<close>\<close>

text \<open>
  \<^verbatim>\<open>increment_iterator\<close>: \<^verbatim>\<open>discard_arguments(++(std::get<N>(iterator))...)\<close>.
  Every index of the sequence steps its own slot of the tuple in place.
\<close>

fun increment_iterator ::
  "'a range_iterator list \<Rightarrow> nat list \<Rightarrow> error + 'a range_iterator list" where
  "increment_iterator iterator [] = Inr iterator"
| "increment_iterator iterator (N # Ns) =
     (case std_get N iterator of
        Inl e \<Rightarrow> Inl e
      | Inr i \<Rightarrow>
          (case pre_increment i of
             Inl e \<Rightarrow> Inl e
           | Inr i' \<Rightarrow> increment_iterator (iterator[N := i']) Ns))"

text \<open>
  \<^verbatim>\<open>dereference_iterator\<close>: the tuple of \<^verbatim>\<open>*(std::get<N>(iterator))\<close> over the
  index sequence.
\<close>

definition dereference_iterator :: "'a range_iterator list \<Rightarrow> nat list \<Rightarrow> error + 'a list" where
  "dereference_iterator iterator Ns =
     expand_pack (map (\<lambda>N. case std_get N iterator of
                              Inl e \<Rightarrow> Inl e
                            | Inr i \<Rightarrow> dereference i) Ns)"

text \<open>
  A slot of the sentinel holds the end iterator of its range, or
  \<^verbatim>\<open>std::ignore\<close>.  The type of a slot is chosen by
  \<^verbatim>\<open>iterator_element_end_type<element_selected, range_type>\<close>.
\<close>

datatype 'a end_marker =
  End_iterator "'a range_iterator"
  | Ignore

datatype end_type =
  End_iterator_type
  | Ignore_type

definition iterator_element_end_type :: "bool \<Rightarrow> end_type" where
  "iterator_element_end_type element_selected =
     (if element_selected then End_iterator_type else Ignore_type)"

text \<open>
  \<^verbatim>\<open>iterator_end_type<mask>(std::tuple<range_type...>, std::index_sequence<range_index...>)\<close>
  with its requires-clause; the two packs are expanded together.
\<close>

definition iterator_end_type ::
  "zip_sequence_length_selector \<Rightarrow> 'b list \<Rightarrow> nat list \<Rightarrow> error + end_type list" where
  "iterator_end_type mask' range_type range_index =
     (if mask' \<noteq> 0 \<and> length range_index = length range_type
      then Inr (map2 (\<lambda>index r. iterator_element_end_type (examine_zip_element mask' index))
                  range_index range_type)
      else Inl Constraints_not_satisfied)"

definition capture_end_iterator :: "end_type \<Rightarrow> 'a range \<Rightarrow> 'a end_marker" where
  "capture_end_iterator end_iterator_type r =
     (if end_iterator_type = Ignore_type then Ignore else End_iterator (range_end r))"

definition capture_end_iterators ::
  "end_type list \<Rightarrow> nat list \<Rightarrow> 'a range list \<Rightarrow> error + 'a end_marker list" where
  "capture_end_iterators sentinel_type Ns r =
     (if length Ns = length r
      then expand_pack (map2 (\<lambda>N rN. case std_get N sentinel_type of
                                        Inl e \<Rightarrow> Inl e
                                      | Inr t \<Rightarrow> Inr (capture_end_iterator t rN)) Ns r)
      else Inl Constraints_not_satisfied)"

text \<open>
  \<^verbatim>\<open>compare_zip_iterator<mask, N>(l, r)\<close>.  A selected slot compares the iterator
  with the end iterator of the sentinel; comparing with \<^verbatim>\<open>std::ignore\<close> does not
  compile.  An excluded slot is \<^verbatim>\<open>std::false_type\<close> and reads neither argument.
\<close>

definition compare_zip_iterator ::
  "bool \<Rightarrow> nat \<Rightarrow> 'a range_iterator list \<Rightarrow> 'a end_marker list \<Rightarrow> error + bool" where
  "compare_zip_iterator mask' N l r =
     (if mask'
      then (case std_get N l of
              Inl e \<Rightarrow> Inl e
            | Inr i \<Rightarrow>
                (case std_get N r of
                   Inl e \<Rightarrow> Inl e
                 | Inr Ignore \<Rightarrow> Inl Constraints_not_satisfied
                 | Inr (End_iterator e) \<Rightarrow> Inr (i = e)))
      else Inr False)"

text \<open>
  \<^verbatim>\<open>compare_zip_iterators\<close>: the fold
  \<^verbatim>\<open>(compare_zip_iterator<examine_zip_element<mask, N>::value, N>(l, r) || ... || false)\<close>.
\<close>

fun compare_zip_iterators ::
  "zip_sequence_length_selector \<Rightarrow> 'a range_iterator list \<Rightarrow> 'a end_marker list \<Rightarrow> nat list
     \<Rightarrow> error + bool" where
  "compare_zip_iterators mask' l r [] = Inr False"
| "compare_zip_iterators mask' l r (N # Ns) =
     (case compare_zip_iterator (examine_zip_element mask' N) N l r of
        Inl e \<Rightarrow> Inl e
      | Inr b \<Rightarrow>
          (case compare_zip_iterators mask' l r Ns of
             Inl e \<Rightarrow> Inl e
           | Inr bs \<Rightarrow> Inr (b \<or> bs)))"

subsection \<open>\<^verbatim>\<open>class zip_iterator\<close>\<close>

text \<open>
  The iterator is the tuple of the ranges' iterators (its base class) together
  with the selector mask \<^verbatim>\<open>examine_end_range\<close> it was instantiated with.
\<close>

record 'a zip_iterator =
  end_range_selector :: zip_sequence_length_selector
  base :: "'a range_iterator list"

text \<open>\<^verbatim>\<open>std::make_index_sequence<sizeof...(rangeN_type)>\<close>.\<close>

definition index_sequence_type :: "'a zip_iterator \<Rightarrow> nat list" where
  "index_sequence_type i = [0..<length (base i)]"

definition sentinel_type :: "'a zip_iterator \<Rightarrow> error + end_type list" where
  "sentinel_type i = iterator_end_type (end_range_selector i) (base i) (index_sequence_type i)"

text \<open>\<^verbatim>\<open>operator*\<close>.\<close>

definition zip_iterator_dereference :: "'a zip_iterator \<Rightarrow> error + 'a list" where
  "zip_iterator_dereference i = dereference_iterator (base i) (index_sequence_type i)"

text \<open>\<^verbatim>\<open>operator++()\<close>: the iterator after the step.\<close>

definition zip_iterator_pre_increment :: "'a zip_iterator \<Rightarrow> error + 'a zip_iterator" where
  "zip_iterator_pre_increment i =
     (case increment_iterator (base i) (index_sequence_type i) of
        Inl e \<Rightarrow> Inl e
      | Inr b \<Rightarrow> Inr (i\<lparr>base := b\<rparr>))"

text \<open>\<^verbatim>\<open>operator++(int)\<close>: the returned copy, and the iterator after the step.\<close>

definition zip_iterator_post_increment ::
  "'a zip_iterator \<Rightarrow> error + ('a zip_iterator \<times> 'a zip_iterator)" where
  "zip_iterator_post_increment i =
     (let result = i in
      case increment_iterator (base i) (index_sequence_type i) of
        Inl e \<Rightarrow> Inl e
      | Inr b \<Rightarrow> Inr (result, i\<lparr>base := b\<rparr>))"

text \<open>\<^verbatim>\<open>operator-\<close>: the difference of the two iterators of sequence 0.\<close>

definition zip_iterator_minus :: "'a zip_iterator \<Rightarrow> 'a zip_iterator \<Rightarrow> error + int" where
  "zip_iterator_minus l i =
     (case std_get 0 (base l) of
        Inl e \<Rightarrow> Inl e
      | Inr l0 \<Rightarrow>
          (case std_get 0 (base i) of
             Inl e \<Rightarrow> Inl e
           | Inr i0 \<Rightarrow> difference l0 i0))"

text \<open>\<^verbatim>\<open>operator==(const sentinel_type &)\<close>.\<close>

definition zip_iterator_equal :: "'a zip_iterator \<Rightarrow> 'a end_marker list \<Rightarrow> error + bool" where
  "zip_iterator_equal l i =
     compare_zip_iterators (end_range_selector l) (base l) i (index_sequence_type l)"

subsection \<open>\<^verbatim>\<open>concept zip_static_size_bounds_check\<close>\<close>

text \<open>
  The defaulted template arguments are computed in the order of the header.
  An argument that cannot be formed leaves the constraint unsatisfied, and so
  does a comparison one of whose sides has no member \<^verbatim>\<open>value\<close>.
\<close>

definition zip_static_size_bounds_check ::
  "zip_sequence_length_selector \<Rightarrow> nat option list \<Rightarrow> bool" where
  "zip_static_size_bounds_check examine_end_range range_all_static_sizes =
     (case minimum_static_size range_all_static_sizes of
        Inl e \<Rightarrow> False
      | Inr minimum_all_static_size \<Rightarrow>
          (let range_examined_static_sizes =
                 get_examined_static_size examine_end_range
                   [0..<length range_all_static_sizes] range_all_static_sizes
           in case minimum_static_size range_examined_static_sizes of
                Inl e \<Rightarrow> False
              | Inr minimum_examined_static_size \<Rightarrow>
                  (case minimum_examined_static_size of
                     None \<Rightarrow> True
                   | Some examined \<Rightarrow>
                       (case minimum_all_static_size of
                          None \<Rightarrow> False
                        | Some all \<Rightarrow> examined \<le> all))))"

subsection \<open>\<^verbatim>\<open>class zip\<close>\<close>

text \<open>
  The requires-clause of the class template: a non-empty mask, at least one
  range, and the static size check on the static sizes of the ranges.
\<close>

definition zip_requires :: "zip_sequence_length_selector \<Rightarrow> 'a range list \<Rightarrow> bool" where
  "zip_requires examine_end_range rangeN =
     (examine_end_range \<noteq> 0 \<and>
      0 < length rangeN \<and>
      zip_static_size_bounds_check examine_end_range (map get_static_size rangeN))"

text \<open>The view derives from its iterator and adds the sentinel \<^verbatim>\<open>m_end\<close>.\<close>

record 'a zip_view = "'a zip_iterator" +
  m_end :: "'a end_marker list"

text \<open>
  \<^verbatim>\<open>zip(rangeN_type &&... rN)\<close> of \<^verbatim>\<open>zip<range_index_type, examine_end_range, rangeN_type...>\<close>:
  the base iterator is \<^verbatim>\<open>std::begin(rN)...\<close>, and \<^verbatim>\<open>m_end\<close> is captured from the
  ranges with the iterator's \<^verbatim>\<open>sentinel_type\<close>.
\<close>

definition zip_constructor ::
  "zip_sequence_length_selector \<Rightarrow> 'a range list \<Rightarrow> error + 'a zip_view" where
  "zip_constructor examine_end_range rN =
     (if zip_requires examine_end_range rN
      then (let iterator = \<lparr>end_range_selector = examine_end_range, base = map range_begin rN\<rparr>
            in case sentinel_type iterator of
                 Inl e \<Rightarrow> Inl e
               | Inr sentinel \<Rightarrow>
                   (case capture_end_iterators sentinel (index_sequence_type iterator) rN of
                      Inl e \<Rightarrow> Inl e
                    | Inr captured \<Rightarrow>
                        Inr \<lparr>end_range_selector = examine_end_range,
                             base = map range_begin rN,
                             m_end = captured\<rparr>))
      else Inl Constraints_not_satisfied)"

text \<open>
  \<^verbatim>\<open>zip(std::integral_constant<zip_sequence_length_selector, selector>, rangeN_type &&... rN)\<close>:
  delegates to the constructor above.  The tag is an empty object; its
  template argument \<open>selector\<close> is deduced independently of the class's
  \<open>examine_end_range\<close>.
\<close>

definition zip_constructor_selector ::
  "zip_sequence_length_selector \<Rightarrow> zip_sequence_length_selector \<Rightarrow> 'a range list
     \<Rightarrow> error + 'a zip_view" where
  "zip_constructor_selector selector examine_end_range rN = zip_constructor examine_end_range rN"

text \<open>
  The deduction guides: \<^verbatim>\<open>zip(rN...)\<close> instantiates the class with
  \<^verbatim>\<open>zip_sequence_length_selector{1}\<close>, and \<^verbatim>\<open>zip(zip_sequence_selector<selector>, rN...)\<close>
  with \<open>selector\<close>.  Every range of the model is a borrowed range.
\<close>

definition zip_deduced :: "'a range list \<Rightarrow> error + 'a zip_view" where
  "zip_deduced rN = zip_constructor 1 rN"

definition zip_deduced_selector ::
  "zip_sequence_length_selector \<Rightarrow> 'a range list \<Rightarrow> error + 'a zip_view" where
  "zip_deduced_selector selector rN = zip_constructor_selector selector selector rN"

text \<open>\<^verbatim>\<open>begin()\<close> returns the iterator base of the view, \<^verbatim>\<open>end()\<close> returns \<^verbatim>\<open>m_end\<close>.\<close>

definition zip_begin :: "'a zip_view \<Rightarrow> 'a zip_iterator" where
  "zip_begin z = \<lparr>end_range_selector = end_range_selector z, base = base z\<rparr>"

definition zip_end :: "'a zip_view \<Rightarrow> 'a end_marker list" where
  "zip_end z = m_end z"

subsection \<open>Traversal\<close>

text \<open>
  The loop the iterator is written for (the header's comment on
  \<^verbatim>\<open>zip_iterator\<close>, and every range-based \<^verbatim>\<open>for\<close> over a view):
  \<^verbatim>\<open>for (auto i = zip_range.begin(), e = zip_range.end(); i != e; ++i) visit(*i);\<close>
  The function returns the tuples visited, in order.  The loop need not end:
  the result is \<open>None\<close> when it does not.
\<close>

partial_function (option) range_for ::
  "'a zip_iterator \<Rightarrow> 'a end_marker list \<Rightarrow> 'a list list \<Rightarrow> (error + 'a list list) option" where
  "range_for i e visited =
     (case zip_iterator_equal i e of
        Inl err \<Rightarrow> Some (Inl err)
      | Inr at_end \<Rightarrow>
          if at_end then Some (Inr visited)
          else (case zip_iterator_dereference i of
                  Inl err \<Rightarrow> Some (Inl err)
                | Inr t \<Rightarrow>
                    (case zip_iterator_pre_increment i of
                       Inl err \<Rightarrow> Some (Inl err)
                     | Inr i' \<Rightarrow> range_for i' e (visited @ [t]))))"

declare range_for.simps [code]

definition traverse :: "'a zip_view \<Rightarrow> (error + 'a list list) option" where
  "traverse z = range_for (zip_begin z) (zip_end z) []"

subsection \<open>Notions used by the statements\<close>

text \<open>
  The values of a sentinel type \<^verbatim>\<open>zip_sentinel<T...>\<close>: one slot for every element
  type, an end iterator where the type is an iterator type and \<^verbatim>\<open>std::ignore\<close>
  where it is the type of \<^verbatim>\<open>std::ignore\<close>.
\<close>

definition has_sentinel_type :: "'a end_marker list \<Rightarrow> end_type list \<Rightarrow> bool" where
  "has_sentinel_type r T =
     list_all2 (\<lambda>e t. case e of End_iterator _ \<Rightarrow> t = End_iterator_type
                             | Ignore \<Rightarrow> t = Ignore_type) r T"

text \<open>\<open>k\<close> applications of \<^verbatim>\<open>operator++()\<close>.\<close>

fun advance :: "nat \<Rightarrow> 'a zip_iterator \<Rightarrow> error + 'a zip_iterator" where
  "advance 0 i = Inr i"
| "advance (Suc k) i =
     (case zip_iterator_pre_increment i of
        Inl e \<Rightarrow> Inl e
      | Inr i' \<Rightarrow> advance k i')"

text \<open>The lengths of the ranges that the mask selects, in the order of the ranges.\<close>

definition selected_lengths :: "zip_sequence_length_selector \<Rightarrow> 'a range list \<Rightarrow> nat list" where
  "selected_lengths examine_end_range rN =
     map (\<lambda>N. length (elements (rN ! N)))
       (filter (examine_zip_element examine_end_range) [0..<length rN])"

section \<open>Properties\<close>

subsection \<open>The selector mask\<close>

lemma examine_zip_element_bit: "examine_zip_element m N = bit m N"
  unfolding examine_zip_element_def
  by (auto simp add: and_exp_eq_0_iff_not_bit dest: bit_imp_le_length)

text \<open>
  Claim C8.  Whether index \<open>N\<close> takes part in the termination test is a function
  of the mask and the index alone: it does exactly when bit \<open>N\<close> of the mask is
  set.  Each of the indices 0 to 31 can be selected on its own, so 32 zipped
  sequences are supported.
\<close>

theorem examine_zip_element_is_bit_test:
  "(examine_zip_element examine_end_range N \<longleftrightarrow> bit examine_end_range N) \<and>
   (N < 32 \<longrightarrow> (\<forall>M. examine_zip_element (push_bit N 1) M \<longleftrightarrow> M = N))"
proof -
  have "bit (push_bit N (1 :: 32 word)) M \<longleftrightarrow> M = N" if "N < 32" for M
    using that by (auto simp add: bit_exp_iff)
  then show ?thesis
    by (simp add: examine_zip_element_bit)
qed

theorem examine_zip_element_is_bit_test_witness:
  "(31 :: nat) < 32 \<and>
   examine_zip_element (push_bit 31 1) 31 \<and>
   \<not> examine_zip_element (push_bit 31 1) 30 \<and>
   \<not> examine_zip_element (push_bit 31 1) 32"
  using examine_zip_element_is_bit_test [of 0 31] by simp

subsection \<open>The minimum of the static sizes\<close>

lemma minimum_static_size_known:
  "sizes \<noteq> [] \<Longrightarrow> minimum_static_size sizes =
     Inr (if \<forall>s\<in>set sizes. s = None then None else Some (Min {n. Some n \<in> set sizes}))"
proof (induction sizes rule: minimum_static_size.induct)
  case 1
  then show ?case by simp
next
  case (2 s)
  then show ?case by (cases s) auto
next
  case (3 size1 sizeN)
  then show ?case by simp
next
  case (4 size0 sizeN)
  have "{n. Some n \<in> set (Some size0 # None # sizeN)} = {n. Some n \<in> set (Some size0 # sizeN)}"
    by auto
  with 4 show ?case by simp
next
  case (5 size0 size1 sizeN)
  let ?S = "{n. Some n \<in> set sizeN}"
  have fin: "finite ?S"
  proof -
    have "?S = the ` (set sizeN \<inter> {s. s \<noteq> None})" by force
    then show ?thesis by simp
  qed
  have eq1: "{n. Some n \<in> set (Some size0 # Some size1 # sizeN)} = insert size0 (insert size1 ?S)"
    by auto
  have eq2: "\<And>a. {n. Some n \<in> set (Some a # sizeN)} = insert a ?S"
    by auto
  have "Min (insert (min size0 size1) ?S) = Min (insert size0 (insert size1 ?S))"
  proof (cases "?S = {}")
    case True
    then show ?thesis by (simp add: min.commute)
  next
    case False
    with fin show ?thesis by (simp add: min.assoc)
  qed
  with 5 eq1 eq2 show ?case by (simp add: min_def split: if_splits)
qed

text \<open>
  Claim C7.  On a non-empty list of static sizes the fold returns the minimum
  of the known sizes when there is one, and "unknown" when every size is
  unknown.  In a pairwise step an unknown size drops out, whether it stands
  first or second: the fold continues with the other size \<open>s\<close> and the rest.
\<close>

theorem minimum_static_size_is_minimum_of_known:
  "sizes \<noteq> [] \<Longrightarrow>
     minimum_static_size sizes =
       Inr (if \<forall>s\<in>set sizes. s = None then None else Some (Min {n. Some n \<in> set sizes})) \<and>
     minimum_static_size (None # s # sizeN) = minimum_static_size (s # sizeN) \<and>
     minimum_static_size (s # None # sizeN) = minimum_static_size (s # sizeN)"
proof (intro conjI)
  assume "sizes \<noteq> []"
  then show "minimum_static_size sizes =
       Inr (if \<forall>s\<in>set sizes. s = None then None else Some (Min {n. Some n \<in> set sizes}))"
    by (rule minimum_static_size_known)
next
  show "minimum_static_size (None # s # sizeN) = minimum_static_size (s # sizeN)"
    by simp
next
  show "minimum_static_size (s # None # sizeN) = minimum_static_size (s # sizeN)"
    by (cases s) simp_all
qed

theorem minimum_static_size_is_minimum_of_known_witness:
  "[None, Some 3, None, Some 2, Some 7] \<noteq> [] \<and>
   minimum_static_size [None, Some 3, None, Some 2, Some 7] = Inr (Some 2) \<and>
   Min {n. Some n \<in> set [None, Some 3, None, Some 2, Some (7 :: nat)]} = 2 \<and>
   minimum_static_size [None, Some 5, Some 4] = minimum_static_size [Some 5, Some 4] \<and>
   minimum_static_size [Some 5, None, Some 4] = minimum_static_size [Some 5, Some 4]"
  using minimum_static_size_is_minimum_of_known
    [of "[None, Some 3, None, Some 2, Some 7]" "Some 5" "[Some 4]"]
  by simp

subsection \<open>Pack expansions\<close>

lemma expand_pack_Inr: "expand_pack (map (\<lambda>x. Inr (g x)) xs) = Inr (map g xs)"
  by (induction xs) simp_all

lemma expand_pack_cong:
  "(\<And>x. x \<in> set xs \<Longrightarrow> f x = Inr (g x)) \<Longrightarrow> expand_pack (map f xs) = Inr (map g xs)"
  by (induction xs) simp_all

lemma increment_iterator_indices:
  "distinct Ns \<Longrightarrow> \<forall>N\<in>set Ns. N < length its \<Longrightarrow>
   increment_iterator its Ns =
     (if \<forall>N\<in>set Ns. position (its ! N) < length (underlying (its ! N))
      then Inr (map (\<lambda>N. if N \<in> set Ns then (its ! N)\<lparr>position := position (its ! N) + 1\<rparr> else its ! N)
                  [0..<length its])
      else Inl Undefined_behaviour)"
proof (induction Ns arbitrary: its)
  case Nil
  then show ?case by (simp add: map_nth)
next
  case (Cons N Ns)
  let ?ok = "\<lambda>its M. position (its ! M) < length (underlying (its ! M))"
  let ?i' = "(its ! N)\<lparr>position := position (its ! N) + 1\<rparr>"
  let ?its' = "its[N := ?i']"
  from Cons.prems have N: "N < length its" "N \<notin> set Ns" and d: "distinct Ns"
    and r: "\<forall>M\<in>set Ns. M < length ?its'" by simp_all
  have same: "?its' ! M = its ! M" if "M \<in> set Ns" for M
    using that N by (auto simp add: nth_list_update)
  show ?case
  proof (cases "?ok its N")
    case False
    then show ?thesis using N by (simp add: std_get_def pre_increment_def)
  next
    case True
    have "increment_iterator its (N # Ns) = increment_iterator ?its' Ns"
      using True N by (simp add: std_get_def pre_increment_def)
    also have "\<dots> = (if \<forall>M\<in>set Ns. ?ok ?its' M
        then Inr (map (\<lambda>M. if M \<in> set Ns then (?its' ! M)\<lparr>position := position (?its' ! M) + 1\<rparr> else ?its' ! M)
                  [0..<length ?its'])
        else Inl Undefined_behaviour)"
      by (rule Cons.IH [OF d r])
    also have "\<dots> = (if \<forall>M\<in>set (N # Ns). ?ok its M
        then Inr (map (\<lambda>M. if M \<in> set (N # Ns) then (its ! M)\<lparr>position := position (its ! M) + 1\<rparr> else its ! M)
                  [0..<length its])
        else Inl Undefined_behaviour)"
      using True N same by (auto simp add: nth_list_update)
    finally show ?thesis .
  qed
qed

lemma increment_iterator_all:
  "increment_iterator its [0..<length its] =
     (if \<forall>N<length its. position (its ! N) < length (underlying (its ! N))
      then Inr (map (\<lambda>it. it\<lparr>position := position it + 1\<rparr>) its)
      else Inl Undefined_behaviour)"
proof -
  have "map (\<lambda>N. if N \<in> set [0..<length its]
                  then (its ! N)\<lparr>position := position (its ! N) + 1\<rparr> else its ! N) [0..<length its]
          = map (\<lambda>it. it\<lparr>position := position it + 1\<rparr>) its"
    by (rule nth_equalityI) simp_all
  moreover have "(\<forall>N\<in>set [0..<length its]. position (its ! N) < length (underlying (its ! N)))
      = (\<forall>N<length its. position (its ! N) < length (underlying (its ! N)))"
    by auto
  ultimately show ?thesis
    using increment_iterator_indices [of "[0..<length its]" its] by simp
qed

subsection \<open>The static size check\<close>

lemma get_examined_static_size_map2:
  "get_examined_static_size m Ns sizes =
     map2 (\<lambda>N s. if examine_zip_element m N then s else None) Ns sizes"
  by (induction m Ns sizes rule: get_examined_static_size.induct) simp_all

lemma known_sizes_nth: "{n. Some n \<in> set sizes} = {n. \<exists>N<length sizes. sizes ! N = Some n}"
  by (auto simp add: in_set_conv_nth)

lemma zip_static_size_bounds_check_sets:
  assumes "sizes \<noteq> []"
  shows "zip_static_size_bounds_check m sizes \<longleftrightarrow>
     {n. \<exists>N<length sizes. examine_zip_element m N \<and> sizes ! N = Some n} = {} \<or>
     Min {n. \<exists>N<length sizes. examine_zip_element m N \<and> sizes ! N = Some n}
       \<le> Min {n. \<exists>N<length sizes. sizes ! N = Some n}"
proof -
  define E where "E = {n. \<exists>N<length sizes. examine_zip_element m N \<and> sizes ! N = Some n}"
  define A where "A = {n. \<exists>N<length sizes. sizes ! N = Some n}"
  define ex where "ex = get_examined_static_size m [0..<length sizes] sizes"
  have len: "length ex = length sizes"
    by (simp add: ex_def get_examined_static_size_map2)
  have nth: "ex ! N = (if examine_zip_element m N then sizes ! N else None)" if "N < length sizes" for N
    using that by (simp add: ex_def get_examined_static_size_map2)
  have ex_ne: "ex \<noteq> []"
    using len assms by auto
  have E: "{n. Some n \<in> set ex} = E"
    unfolding known_sizes_nth len E_def using nth by (auto split: if_splits)
  have A: "{n. Some n \<in> set sizes} = A"
    unfolding known_sizes_nth A_def ..
  have none: "(\<forall>s\<in>set xs. s = None) \<longleftrightarrow> {n. Some n \<in> set xs} = {}" for xs :: "nat option list"
    by (metis (mono_tags, lifting) Collect_empty_eq not_Some_eq)
  have all: "minimum_static_size sizes = Inr (if A = {} then None else Some (Min A))"
    using minimum_static_size_known [OF assms] by (simp only: none A)
  have exm: "minimum_static_size ex = Inr (if E = {} then None else Some (Min E))"
    using minimum_static_size_known [OF ex_ne] by (simp only: none E)
  have sub: "E \<noteq> {} \<Longrightarrow> A \<noteq> {}"
    unfolding E_def A_def by blast
  have "zip_static_size_bounds_check m sizes \<longleftrightarrow> E = {} \<or> Min E \<le> Min A"
    unfolding zip_static_size_bounds_check_def Let_def ex_def [symmetric] all exm
    using sub by (cases "E = {}") simp_all
  then show ?thesis
    unfolding E_def A_def .
qed

subsection \<open>The constructed view\<close>

lemma map2_upt_nth: "map2 g [0..<length xs] xs = map (\<lambda>N. g N (xs ! N)) [0..<length xs]"
  by (rule nth_equalityI) simp_all

lemma zip_constructor_view:
  "zip_constructor m rN =
     (if zip_requires m rN
      then Inr \<lparr>end_range_selector = m, base = map range_begin rN,
               m_end = map (\<lambda>N. if examine_zip_element m N
                                 then End_iterator (range_end (rN ! N)) else Ignore) [0..<length rN]\<rparr>
      else Inl Constraints_not_satisfied)"
proof (cases "zip_requires m rN")
  case False
  then show ?thesis by (simp add: zip_constructor_def)
next
  case True
  then have m: "m \<noteq> 0" by (simp add: zip_requires_def)
  let ?T = "map (\<lambda>N. iterator_element_end_type (examine_zip_element m N)) [0..<length rN]"
  let ?it = "\<lparr>end_range_selector = m, base = map range_begin rN\<rparr>"
  have T: "sentinel_type ?it = Inr ?T"
    using m map2_upt_nth [of "\<lambda>index r. iterator_element_end_type (examine_zip_element m index)" "map range_begin rN"]
    by (simp add: sentinel_type_def iterator_end_type_def index_sequence_type_def)
  have "capture_end_iterators ?T [0..<length rN] rN =
      expand_pack (map (\<lambda>N. case std_get N ?T of Inl e \<Rightarrow> Inl e
                                | Inr t \<Rightarrow> Inr (capture_end_iterator t (rN ! N))) [0..<length rN])"
    using map2_upt_nth [of "\<lambda>N r. case std_get N ?T of Inl e \<Rightarrow> Inl e
                                | Inr t \<Rightarrow> Inr (capture_end_iterator t r)" rN]
    by (simp add: capture_end_iterators_def)
  also have "\<dots> = Inr (map (\<lambda>N. if examine_zip_element m N
                                 then End_iterator (range_end (rN ! N)) else Ignore) [0..<length rN])"
    by (rule expand_pack_cong)
      (simp add: std_get_def capture_end_iterator_def iterator_element_end_type_def)
  finally show ?thesis
    using True T by (simp add: zip_constructor_def index_sequence_type_def)
qed

subsection \<open>Comparison with the sentinel\<close>

lemma compare_zip_iterators_indices:
  "\<forall>N\<in>set Ns. N < length l \<and> N < length r \<and> (examine_zip_element m N \<longrightarrow> r ! N \<noteq> Ignore) \<Longrightarrow>
   compare_zip_iterators m l r Ns =
     Inr (\<exists>N\<in>set Ns. examine_zip_element m N \<and> r ! N = End_iterator (l ! N))"
proof (induction Ns)
  case Nil
  then show ?case by simp
next
  case (Cons N Ns)
  then have IH: "compare_zip_iterators m l r Ns =
     Inr (\<exists>N\<in>set Ns. examine_zip_element m N \<and> r ! N = End_iterator (l ! N))"
    by simp
  from Cons.prems have N: "N < length l" "N < length r" "examine_zip_element m N \<longrightarrow> r ! N \<noteq> Ignore"
    by simp_all
  have "compare_zip_iterator (examine_zip_element m N) N l r =
      Inr (examine_zip_element m N \<and> r ! N = End_iterator (l ! N))"
    using N by (cases "r ! N") (auto simp add: compare_zip_iterator_def std_get_def)
  with IH show ?case by auto
qed

subsection \<open>Traversal in lock-step\<close>

lemma zip_iterator_equal_at_offset:
  "zip_iterator_equal
     \<lparr>end_range_selector = m, base = map (\<lambda>r. \<lparr>underlying = elements r, position = k\<rparr>) rN\<rparr>
     (map (\<lambda>N. if examine_zip_element m N then End_iterator (range_end (rN ! N)) else Ignore)
        [0..<length rN])
   = Inr (\<exists>N<length rN. examine_zip_element m N \<and> length (elements (rN ! N)) = k)"
  unfolding zip_iterator_equal_def index_sequence_type_def
  by (subst compare_zip_iterators_indices) (auto simp add: range_end_def)

lemma zip_iterator_dereference_at_offset:
  assumes "\<forall>r\<in>set rN. k < length (elements r)"
  shows "zip_iterator_dereference
     \<lparr>end_range_selector = m, base = map (\<lambda>r. \<lparr>underlying = elements r, position = k\<rparr>) rN\<rparr>
   = Inr (map (\<lambda>r. elements r ! k) rN)"
proof -
  have "expand_pack (map (\<lambda>N. case std_get N (map (\<lambda>r. \<lparr>underlying = elements r, position = k\<rparr>) rN) of
                              Inl e \<Rightarrow> Inl e | Inr i \<Rightarrow> dereference i) [0..<length rN])
      = Inr (map (\<lambda>N. elements (rN ! N) ! k) [0..<length rN])"
    using assms by (intro expand_pack_cong) (simp add: std_get_def dereference_def)
  moreover have "map (\<lambda>N. elements (rN ! N) ! k) [0..<length rN] = map (\<lambda>r. elements r ! k) rN"
    by (rule nth_equalityI) simp_all
  ultimately show ?thesis
    by (simp add: zip_iterator_dereference_def dereference_iterator_def index_sequence_type_def)
qed

lemma zip_iterator_pre_increment_at_offset:
  assumes "\<forall>r\<in>set rN. k < length (elements r)"
  shows "zip_iterator_pre_increment
     \<lparr>end_range_selector = m, base = map (\<lambda>r. \<lparr>underlying = elements r, position = k\<rparr>) rN\<rparr>
   = Inr \<lparr>end_range_selector = m, base = map (\<lambda>r. \<lparr>underlying = elements r, position = Suc k\<rparr>) rN\<rparr>"
  using assms increment_iterator_all [of "map (\<lambda>r. \<lparr>underlying = elements r, position = k\<rparr>) rN"]
  by (simp add: zip_iterator_pre_increment_def index_sequence_type_def)

lemma range_for_lockstep:
  assumes sel: "\<exists>N<length rN. examine_zip_element m N \<and> length (elements (rN ! N)) = M"
    and least: "\<forall>N<length rN. examine_zip_element m N \<longrightarrow> M \<le> length (elements (rN ! N))"
    and long: "\<forall>r\<in>set rN. M \<le> length (elements r)"
    and k: "k \<le> M"
  shows "range_for
     \<lparr>end_range_selector = m, base = map (\<lambda>r. \<lparr>underlying = elements r, position = k\<rparr>) rN\<rparr>
     (map (\<lambda>N. if examine_zip_element m N then End_iterator (range_end (rN ! N)) else Ignore)
        [0..<length rN])
     visited
   = Some (Inr (visited @ map (\<lambda>k. map (\<lambda>r. elements r ! k) rN) [k..<M]))"
  using k
proof (induction "M - k" arbitrary: k visited)
  case 0
  then have "k = M" by simp
  with sel show ?case
    by (subst range_for.simps) (simp add: zip_iterator_equal_at_offset)
next
  case (Suc d)
  then have lt: "k < M" and d: "d = M - Suc k" and le: "Suc k \<le> M" by simp_all
  from lt least have ne: "\<not> (\<exists>N<length rN. examine_zip_element m N \<and> length (elements (rN ! N)) = k)"
    by auto
  from lt long have inside: "\<forall>r\<in>set rN. k < length (elements r)"
    by auto
  have "[k..<M] = k # [Suc k..<M]"
    using lt by (simp add: upt_conv_Cons)
  then show ?case
    using ne Suc.hyps(1) [OF d le, of "visited @ [map (\<lambda>r. elements r ! k) rN]"]
    by (subst range_for.simps)
      (simp add: zip_iterator_equal_at_offset zip_iterator_dereference_at_offset [OF inside]
        zip_iterator_pre_increment_at_offset [OF inside])
qed

section \<open>The claims about the iterator\<close>

lemma sentinel_type_slots:
  assumes "sentinel_type l = Inr T"
  shows "length T = length (base l)"
    and "\<And>N. N < length (base l) \<Longrightarrow>
           T ! N = iterator_element_end_type (examine_zip_element (end_range_selector l) N)"
  using assms
  by (auto simp add: sentinel_type_def iterator_end_type_def index_sequence_type_def
      split: if_splits)

text \<open>
  Claim C1.  For a zip iterator \<open>l\<close> and a sentinel \<open>r\<close> of the iterator's sentinel
  type, \<open>l == r\<close> is true if and only if some slot that the mask examines holds
  in \<open>l\<close> the end iterator that \<open>r\<close> holds for that slot: a disjunction over the
  examined slots.  The comparison of a slot that is not examined is the
  constant false, whatever the two tuples hold.
\<close>

theorem zip_iterator_equal_is_any_examined_slot:
  assumes "sentinel_type l = Inr T" and "has_sentinel_type r T"
  shows "zip_iterator_equal l r =
           Inr (\<exists>N<length (base l). examine_zip_element (end_range_selector l) N \<and>
                                    r ! N = End_iterator (base l ! N)) \<and>
         (\<forall>N l' r'. \<not> examine_zip_element (end_range_selector l) N \<longrightarrow>
            compare_zip_iterator (examine_zip_element (end_range_selector l) N) N l' r' = Inr False)"
proof
  from assms(2) have len: "length r = length T"
    and slot: "\<And>N. N < length r \<Longrightarrow>
      (case r ! N of End_iterator _ \<Rightarrow> T ! N = End_iterator_type | Ignore \<Rightarrow> T ! N = Ignore_type)"
    by (simp_all add: has_sentinel_type_def list_all2_conv_all_nth)
  have "examine_zip_element (end_range_selector l) N \<longrightarrow> r ! N \<noteq> Ignore"
    if "N < length (base l)" for N
    using that slot [of N] len sentinel_type_slots [OF assms(1)]
    by (auto simp add: iterator_element_end_type_def)
  then have "compare_zip_iterators (end_range_selector l) (base l) r [0..<length (base l)] =
      Inr (\<exists>N\<in>set [0..<length (base l)]. examine_zip_element (end_range_selector l) N \<and>
                                    r ! N = End_iterator (base l ! N))"
    using len sentinel_type_slots(1) [OF assms(1)]
    by (intro compare_zip_iterators_indices) simp
  then show "zip_iterator_equal l r =
           Inr (\<exists>N<length (base l). examine_zip_element (end_range_selector l) N \<and>
                                    r ! N = End_iterator (base l ! N))"
    by (simp add: zip_iterator_equal_def index_sequence_type_def Bex_def)
next
  show "\<forall>N l' r'. \<not> examine_zip_element (end_range_selector l) N \<longrightarrow>
            compare_zip_iterator (examine_zip_element (end_range_selector l) N) N l' r' = Inr False"
    by (simp add: compare_zip_iterator_def)
qed

theorem zip_iterator_equal_is_any_examined_slot_witness:
  "sentinel_type \<lparr>end_range_selector = 3,
       base = [\<lparr>underlying = [10, 20, 30 :: nat], position = 2\<rparr>,
               \<lparr>underlying = [1, 2], position = 2\<rparr>]\<rparr> = Inr [End_iterator_type, End_iterator_type] \<and>
   has_sentinel_type [End_iterator \<lparr>underlying = [10, 20, 30 :: nat], position = 3\<rparr>,
                      End_iterator \<lparr>underlying = [1, 2], position = 2\<rparr>]
     [End_iterator_type, End_iterator_type] \<and>
   zip_iterator_equal \<lparr>end_range_selector = 3,
       base = [\<lparr>underlying = [10, 20, 30 :: nat], position = 2\<rparr>,
               \<lparr>underlying = [1, 2], position = 2\<rparr>]\<rparr>
     [End_iterator \<lparr>underlying = [10, 20, 30], position = 3\<rparr>,
      End_iterator \<lparr>underlying = [1, 2], position = 2\<rparr>] = Inr True"
proof -
  let ?l = "\<lparr>end_range_selector = 3,
       base = [\<lparr>underlying = [10, 20, 30 :: nat], position = 2\<rparr>,
               \<lparr>underlying = [1, 2], position = 2\<rparr>]\<rparr>"
  let ?r = "[End_iterator \<lparr>underlying = [10, 20, 30 :: nat], position = 3\<rparr>,
             End_iterator \<lparr>underlying = [1, 2], position = 2\<rparr>]"
  have T: "sentinel_type ?l = Inr [End_iterator_type, End_iterator_type]"
    by (simp add: sentinel_type_def iterator_end_type_def index_sequence_type_def
        iterator_element_end_type_def examine_zip_element_def upt_rec)
  have r: "has_sentinel_type ?r [End_iterator_type, End_iterator_type]"
    by (simp add: has_sentinel_type_def)
  have "(\<exists>N<length (base ?l). examine_zip_element (end_range_selector ?l) N \<and>
            ?r ! N = End_iterator (base ?l ! N)) = True"
    by (simp add: Ex_less_Suc examine_zip_element_def)
  with zip_iterator_equal_is_any_examined_slot [OF T r, THEN conjunct1]
  have "zip_iterator_equal ?l ?r = Inr True"
    by (simp only:)
  with T r show ?thesis
    by (intro conjI)
qed

text \<open>
  Claim C6.  One advance, prefix or postfix, steps every slot of the iterator
  by exactly one position, whatever the selector mask says about the slot, and
  the new position of a slot depends on that slot alone.  (When some slot
  already stands at the end of its sequence the advance is undefined.)
\<close>

theorem zip_iterator_increment_steps_every_slot:
  "zip_iterator_pre_increment i =
     (if \<forall>N<length (base i). position (base i ! N) < length (underlying (base i ! N))
      then Inr (i\<lparr>base := map (\<lambda>it. it\<lparr>position := position it + 1\<rparr>) (base i)\<rparr>)
      else Inl Undefined_behaviour) \<and>
   zip_iterator_post_increment i =
     (if \<forall>N<length (base i). position (base i ! N) < length (underlying (base i ! N))
      then Inr (i, i\<lparr>base := map (\<lambda>it. it\<lparr>position := position it + 1\<rparr>) (base i)\<rparr>)
      else Inl Undefined_behaviour)"
proof -
  have "increment_iterator (base i) (index_sequence_type i) =
     (if \<forall>N<length (base i). position (base i ! N) < length (underlying (base i ! N))
      then Inr (map (\<lambda>it. it\<lparr>position := position it + 1\<rparr>) (base i))
      else Inl Undefined_behaviour)"
    unfolding index_sequence_type_def by (rule increment_iterator_all)
  then show ?thesis
    by (simp add: zip_iterator_pre_increment_def zip_iterator_post_increment_def)
qed

theorem zip_iterator_increment_steps_every_slot_witness:
  "zip_iterator_pre_increment
     \<lparr>end_range_selector = 1,
      base = [\<lparr>underlying = [10, 20 :: nat], position = 0\<rparr>,
              \<lparr>underlying = [1, 2, 3], position = 1\<rparr>]\<rparr>
   = Inr \<lparr>end_range_selector = 1,
          base = [\<lparr>underlying = [10, 20], position = 1\<rparr>,
                  \<lparr>underlying = [1, 2, 3], position = 2\<rparr>]\<rparr>"
  using zip_iterator_increment_steps_every_slot
    [of "\<lparr>end_range_selector = 1,
      base = [\<lparr>underlying = [10, 20 :: nat], position = 0\<rparr>,
              \<lparr>underlying = [1, 2, 3], position = 1\<rparr>]\<rparr>"]
  by (simp add: All_less_Suc)

lemma advance_base:
  "advance k i = Inr it \<Longrightarrow>
     it = i\<lparr>base := map (\<lambda>x. x\<lparr>position := position x + k\<rparr>) (base i)\<rparr>"
proof (induction k arbitrary: i)
  case 0
  then show ?case by (simp add: map_idI)
next
  case (Suc k)
  from Suc.prems obtain i' where step: "zip_iterator_pre_increment i = Inr i'"
    and rest: "advance k i' = Inr it"
    by (auto split: sum.splits)
  from step have i': "i' = i\<lparr>base := map (\<lambda>x. x\<lparr>position := position x + 1\<rparr>) (base i)\<rparr>"
    by (auto simp add: zip_iterator_pre_increment_def index_sequence_type_def
        increment_iterator_all split: if_splits)
  from Suc.IH [OF rest] show ?case
    by (simp add: i' comp_def)
qed

text \<open>
  Claim C9.  For a view \<open>z\<close> and the iterator \<open>it\<close> reached from \<open>begin()\<close> by \<open>k\<close>
  advances, \<open>it - begin()\<close> is \<open>k\<close>; the subtraction is the difference of the two
  iterators of sequence 0 and reads no other slot.
\<close>

theorem zip_iterator_minus_counts_advances:
  assumes "zip_constructor examine_end_range rN = Inr z"
    and "advance k (zip_begin z) = Inr it"
  shows "zip_iterator_minus it (zip_begin z) = Inr (int k) \<and>
         zip_iterator_minus it (zip_begin z) = difference (base it ! 0) (base (zip_begin z) ! 0)"
proof -
  from assms(1) have req: "zip_requires examine_end_range rN"
    and b: "base (zip_begin z) = map range_begin rN"
    by (auto simp add: zip_constructor_view zip_begin_def split: if_splits)
  from req have ne: "rN \<noteq> []"
    by (simp add: zip_requires_def)
  from advance_base [OF assms(2)]
  have "base it = map (\<lambda>x. x\<lparr>position := position x + k\<rparr>) (map range_begin rN)"
    by (simp add: b)
  with b ne show ?thesis
    by (cases rN) (simp_all add: zip_iterator_minus_def std_get_def difference_def range_begin_def)
qed

theorem zip_iterator_minus_counts_advances_witness:
  "zip_constructor 1 [Dynamic_range [10, 20, 30 :: nat], Static_array [1, 2, 3, 4]] =
     Inr \<lparr>end_range_selector = 1,
          base = [\<lparr>underlying = [10, 20, 30], position = 0\<rparr>,
                  \<lparr>underlying = [1, 2, 3, 4], position = 0\<rparr>],
          m_end = [End_iterator \<lparr>underlying = [10, 20, 30], position = 3\<rparr>, Ignore]\<rparr> \<and>
   advance 2 (zip_begin \<lparr>end_range_selector = 1,
          base = [\<lparr>underlying = [10, 20, 30 :: nat], position = 0\<rparr>,
                  \<lparr>underlying = [1, 2, 3, 4], position = 0\<rparr>],
          m_end = [End_iterator \<lparr>underlying = [10, 20, 30], position = 3\<rparr>, Ignore]\<rparr>) =
     Inr \<lparr>end_range_selector = 1,
          base = [\<lparr>underlying = [10, 20, 30], position = 2\<rparr>,
                  \<lparr>underlying = [1, 2, 3, 4], position = 2\<rparr>]\<rparr> \<and>
   zip_iterator_minus
     \<lparr>end_range_selector = 1,
          base = [\<lparr>underlying = [10, 20, 30 :: nat], position = 2\<rparr>,
                  \<lparr>underlying = [1, 2, 3, 4], position = 2\<rparr>]\<rparr>
     (zip_begin \<lparr>end_range_selector = 1,
          base = [\<lparr>underlying = [10, 20, 30 :: nat], position = 0\<rparr>,
                  \<lparr>underlying = [1, 2, 3, 4], position = 0\<rparr>],
          m_end = [End_iterator \<lparr>underlying = [10, 20, 30], position = 3\<rparr>, Ignore]\<rparr>) = Inr 2"
proof -
  let ?z = "\<lparr>end_range_selector = 1,
          base = [\<lparr>underlying = [10, 20, 30 :: nat], position = 0\<rparr>,
                  \<lparr>underlying = [1, 2, 3, 4], position = 0\<rparr>],
          m_end = [End_iterator \<lparr>underlying = [10, 20, 30], position = 3\<rparr>, Ignore]\<rparr>"
  let ?it = "\<lparr>end_range_selector = 1,
          base = [\<lparr>underlying = [10, 20, 30 :: nat], position = 2\<rparr>,
                  \<lparr>underlying = [1, 2, 3, 4], position = 2\<rparr>]\<rparr>"
  have c: "zip_constructor 1 [Dynamic_range [10, 20, 30 :: nat], Static_array [1, 2, 3, 4]] = Inr ?z"
    by code_simp
  have a: "advance 2 (zip_begin ?z) = Inr ?it"
    by code_simp
  from zip_iterator_minus_counts_advances [OF c a] c a show ?thesis
    by simp
qed

section \<open>The claims about construction\<close>

lemma zip_constructor_rejects_zero_mask:
  "zip_constructor 0 rN = Inl Constraints_not_satisfied \<and>
   zip_constructor_selector selector 0 rN = Inl Constraints_not_satisfied \<and>
   zip_deduced_selector 0 rN = Inl Constraints_not_satisfied \<and>
   iterator_end_type 0 range_type range_index = Inl Constraints_not_satisfied"
  by (simp add: zip_constructor_def zip_constructor_selector_def zip_deduced_selector_def
      zip_requires_def iterator_end_type_def)

text \<open>
  Claim C5.  A zip whose selector selects no sequence for termination is never
  accepted.  The code rejects the mask 0 (lemma \<open>zip_constructor_rejects_zero_mask\<close>),
  but that is the only mask it rejects: a mask that is not 0 and has no bit
  set below the number of ranges selects no sequence either, and with it the
  view is constructed, every slot of its sentinel is \<^verbatim>\<open>std::ignore\<close>, and the
  comparison with that sentinel is false for every iterator of the view.
\<close>

theorem zip_constructor_accepts_mask_selecting_nothing:
  fixes rN :: "'a range list"
  assumes "examine_end_range \<noteq> 0" and "rN \<noteq> []"
    and "\<forall>N<length rN. \<not> examine_zip_element examine_end_range N"
  shows "zip_constructor examine_end_range rN =
           Inr \<lparr>end_range_selector = examine_end_range, base = map range_begin rN,
                m_end = map (\<lambda>N. Ignore) [0..<length rN]\<rparr> \<and>
         (\<forall>b :: 'a range_iterator list. length b = length rN \<longrightarrow>
            zip_iterator_equal \<lparr>end_range_selector = examine_end_range, base = b\<rparr>
              (map (\<lambda>N. Ignore) [0..<length rN]) = Inr False)"
proof
  have "{n. \<exists>N<length (map get_static_size rN). examine_zip_element examine_end_range N \<and>
            map get_static_size rN ! N = Some n} = {}"
    using assms(3) by auto
  moreover have "map get_static_size rN \<noteq> []"
    using assms(2) by simp
  ultimately have "zip_static_size_bounds_check examine_end_range (map get_static_size rN)"
    by (simp only: zip_static_size_bounds_check_sets simp_thms)
  with assms(1,2) have "zip_requires examine_end_range rN"
    by (simp add: zip_requires_def)
  moreover have "map (\<lambda>N. if examine_zip_element examine_end_range N
                          then End_iterator (range_end (rN ! N)) else Ignore) [0..<length rN]
               = map (\<lambda>N. Ignore) [0..<length rN]"
    using assms(3) by simp
  ultimately show "zip_constructor examine_end_range rN =
           Inr \<lparr>end_range_selector = examine_end_range, base = map range_begin rN,
                m_end = map (\<lambda>N. Ignore) [0..<length rN]\<rparr>"
    by (simp only: zip_constructor_view if_True)
next
  show "\<forall>b :: 'a range_iterator list. length b = length rN \<longrightarrow>
            zip_iterator_equal \<lparr>end_range_selector = examine_end_range, base = b\<rparr>
              (map (\<lambda>N. Ignore) [0..<length rN]) = Inr False"
  proof (intro allI impI)
    fix b :: "'a range_iterator list"
    assume len: "length b = length rN"
    have "compare_zip_iterators examine_end_range b (map (\<lambda>N. Ignore) [0..<length rN])
            [0..<length b] =
          Inr (\<exists>N\<in>set [0..<length b]. examine_zip_element examine_end_range N \<and>
                 map (\<lambda>N. Ignore) [0..<length rN] ! N = End_iterator (b ! N))"
      using assms(3) len by (intro compare_zip_iterators_indices) simp
    also have "\<dots> = Inr False"
      using assms(3) len by simp
    finally show "zip_iterator_equal \<lparr>end_range_selector = examine_end_range, base = b\<rparr>
              (map (\<lambda>N. Ignore) [0..<length rN]) = Inr False"
      by (simp add: zip_iterator_equal_def index_sequence_type_def)
  qed
qed

theorem zip_constructor_accepts_mask_selecting_nothing_witness:
  "(4 :: 32 word) \<noteq> 0 \<and>
   \<not> examine_zip_element 4 0 \<and> \<not> examine_zip_element 4 1 \<and>
   zip_constructor 4 [Static_array [1, 2 :: nat], Dynamic_range [10, 20]] =
     Inr \<lparr>end_range_selector = 4,
          base = [\<lparr>underlying = [1, 2], position = 0\<rparr>,
                  \<lparr>underlying = [10, 20], position = 0\<rparr>],
          m_end = [Ignore, Ignore]\<rparr> \<and>
   zip_iterator_equal
     \<lparr>end_range_selector = 4,
        base = [\<lparr>underlying = [1, 2 :: nat], position = 2\<rparr>,
                \<lparr>underlying = [10, 20], position = 2\<rparr>]\<rparr>
     [Ignore, Ignore] = Inr False \<and>
   traverse \<lparr>end_range_selector = 4,
          base = [\<lparr>underlying = [1, 2 :: nat], position = 0\<rparr>,
                  \<lparr>underlying = [10, 20], position = 0\<rparr>],
          m_end = [Ignore, Ignore]\<rparr> = Some (Inl Undefined_behaviour)"
proof -
  let ?rN = "[Static_array [1, 2 :: nat], Dynamic_range [10, 20]]"
  let ?b = "[\<lparr>underlying = [1, 2 :: nat], position = 2\<rparr>,
             \<lparr>underlying = [10, 20], position = 2\<rparr>]"
  have m: "(4 :: 32 word) \<noteq> 0" by simp
  have ne: "?rN \<noteq> []" by simp
  have e0: "\<not> examine_zip_element 4 0" and e1: "\<not> examine_zip_element 4 1"
    by (simp_all add: examine_zip_element_def)
  have none: "\<forall>N<length ?rN. \<not> examine_zip_element 4 N"
    using e0 e1 by (simp add: All_less_Suc)
  have b: "map range_begin ?rN =
      [\<lparr>underlying = [1, 2], position = 0\<rparr>, \<lparr>underlying = [10, 20], position = 0\<rparr>]"
    by (simp add: range_begin_def)
  have i: "map (\<lambda>N. Ignore :: nat end_marker) [0..<length ?rN] = [Ignore, Ignore]"
    by (simp add: upt_rec)
  have len: "length ?b = length ?rN" by simp
  note t = zip_constructor_accepts_mask_selecting_nothing [OF m ne none]
  from t [THEN conjunct1]
  have c: "zip_constructor 4 ?rN =
     Inr \<lparr>end_range_selector = 4,
          base = [\<lparr>underlying = [1, 2], position = 0\<rparr>,
                  \<lparr>underlying = [10, 20], position = 0\<rparr>],
          m_end = [Ignore, Ignore]\<rparr>"
    unfolding b i .
  from t [THEN conjunct2, rule_format, OF len]
  have q: "zip_iterator_equal \<lparr>end_range_selector = 4, base = ?b\<rparr> [Ignore, Ignore] = Inr False"
    unfolding i .
  have u: "traverse \<lparr>end_range_selector = 4,
          base = [\<lparr>underlying = [1, 2 :: nat], position = 0\<rparr>,
                  \<lparr>underlying = [10, 20], position = 0\<rparr>],
          m_end = [Ignore, Ignore]\<rparr> = Some (Inl Undefined_behaviour)"
    by code_simp
  from m e0 e1 c q u show ?thesis
    by (intro conjI)
qed

text \<open>
  Claim C10.  For the same mask \<open>examine_end_range\<close> and the same ranges, the
  constructor that takes a selector tag builds exactly the view of the plain
  constructor (the same begin iterator and the same sentinel), whatever the
  tag's \<open>selector\<close> is.
\<close>

theorem zip_constructor_selector_is_plain:
  "zip_constructor_selector selector examine_end_range rN = zip_constructor examine_end_range rN \<and>
   zip_deduced_selector examine_end_range rN = zip_constructor examine_end_range rN \<and>
   zip_deduced_selector 1 rN = zip_deduced rN"
  by (simp add: zip_constructor_selector_def zip_deduced_selector_def zip_deduced_def)

lemma zip_constructor_accepted_iff:
  "(\<exists>z. zip_constructor examine_end_range rangeN = Inr z) \<longleftrightarrow>
     examine_end_range \<noteq> 0 \<and> rangeN \<noteq> [] \<and>
     ({n. \<exists>N<length rangeN. examine_zip_element examine_end_range N \<and>
                             get_static_size (rangeN ! N) = Some n} = {} \<or>
      Min {n. \<exists>N<length rangeN. examine_zip_element examine_end_range N \<and>
                                get_static_size (rangeN ! N) = Some n}
        \<le> Min {n. \<exists>N<length rangeN. get_static_size (rangeN ! N) = Some n})"
proof (cases "rangeN = []")
  case True
  then show ?thesis
    by (simp add: zip_constructor_view zip_requires_def)
next
  case False
  then have "map get_static_size rangeN \<noteq> []" by simp
  from zip_static_size_bounds_check_sets [OF this, of examine_end_range] False
  show ?thesis
    by (simp add: zip_constructor_view zip_requires_def cong: conj_cong)
qed

lemma zip_constructor_rejected:
  "(\<nexists>z. zip_constructor examine_end_range rangeN = Inr z) \<Longrightarrow>
     zip_constructor examine_end_range rangeN = Inl Constraints_not_satisfied"
  by (simp add: zip_constructor_view split: if_splits)

text \<open>
  Claim C4.  For a mask that examines some range, construction of a zip is
  accepted when the minimum static size over the examined ranges is unknown
  (no examined range has a static size) or is at most the minimum static size
  over all ranges, and it is rejected when both minima are known and the
  examined one exceeds the overall one.  The witness is the array of length 2
  (selected) with the array of length 5, accepted, and the array of length 5
  (selected) with the array of length 2, rejected.
\<close>

theorem zip_constructor_static_size_check:
  assumes "\<exists>N<length rangeN. examine_zip_element examine_end_range N"
  shows "({n. \<exists>N<length rangeN. examine_zip_element examine_end_range N \<and>
                             get_static_size (rangeN ! N) = Some n} = {} \<or>
          Min {n. \<exists>N<length rangeN. examine_zip_element examine_end_range N \<and>
                                get_static_size (rangeN ! N) = Some n}
            \<le> Min {n. \<exists>N<length rangeN. get_static_size (rangeN ! N) = Some n}
          \<longrightarrow> (\<exists>z. zip_constructor examine_end_range rangeN = Inr z)) \<and>
         ({n. \<exists>N<length rangeN. examine_zip_element examine_end_range N \<and>
                             get_static_size (rangeN ! N) = Some n} \<noteq> {} \<and>
          Min {n. \<exists>N<length rangeN. get_static_size (rangeN ! N) = Some n}
            < Min {n. \<exists>N<length rangeN. examine_zip_element examine_end_range N \<and>
                                get_static_size (rangeN ! N) = Some n}
          \<longrightarrow> zip_constructor examine_end_range rangeN = Inl Constraints_not_satisfied)"
proof -
  from assms obtain N where N: "N < length rangeN" "examine_zip_element examine_end_range N"
    by blast
  from N(1) have ne: "rangeN \<noteq> []"
    by auto
  from N(2) have mask: "examine_end_range \<noteq> 0"
    by (auto simp add: examine_zip_element_def)
  show ?thesis
  proof (intro conjI impI)
    assume "{n. \<exists>N<length rangeN. examine_zip_element examine_end_range N \<and>
                             get_static_size (rangeN ! N) = Some n} = {} \<or>
          Min {n. \<exists>N<length rangeN. examine_zip_element examine_end_range N \<and>
                                get_static_size (rangeN ! N) = Some n}
            \<le> Min {n. \<exists>N<length rangeN. get_static_size (rangeN ! N) = Some n}"
    with ne mask show "\<exists>z. zip_constructor examine_end_range rangeN = Inr z"
      by (intro zip_constructor_accepted_iff [THEN iffD2] conjI)
  next
    assume "{n. \<exists>N<length rangeN. examine_zip_element examine_end_range N \<and>
                             get_static_size (rangeN ! N) = Some n} \<noteq> {} \<and>
          Min {n. \<exists>N<length rangeN. get_static_size (rangeN ! N) = Some n}
            < Min {n. \<exists>N<length rangeN. examine_zip_element examine_end_range N \<and>
                                get_static_size (rangeN ! N) = Some n}"
    then have "\<not> ({n. \<exists>N<length rangeN. examine_zip_element examine_end_range N \<and>
                             get_static_size (rangeN ! N) = Some n} = {} \<or>
          Min {n. \<exists>N<length rangeN. examine_zip_element examine_end_range N \<and>
                                get_static_size (rangeN ! N) = Some n}
            \<le> Min {n. \<exists>N<length rangeN. get_static_size (rangeN ! N) = Some n})"
      by (simp only: de_Morgan_disj not_le simp_thms)
    then have "\<nexists>z. zip_constructor examine_end_range rangeN = Inr z"
      unfolding zip_constructor_accepted_iff by blast
    then show "zip_constructor examine_end_range rangeN = Inl Constraints_not_satisfied"
      by (rule zip_constructor_rejected)
  qed
qed

theorem zip_constructor_static_size_check_witness:
  "(\<exists>N<length [Static_array [1, 2 :: nat], Static_array [10, 20, 30, 40, 50]].
      examine_zip_element 1 N) \<and>
   (\<exists>z. zip_constructor 1 [Static_array [1, 2 :: nat], Static_array [10, 20, 30, 40, 50]] = Inr z) \<and>
   zip_constructor 1 [Static_array [10, 20, 30, 40, 50], Static_array [1, 2 :: nat]] =
     Inl Constraints_not_satisfied"
proof -
  let ?X = "[Static_array [1, 2 :: nat], Static_array [10, 20, 30, 40, 50]]"
  let ?Y = "[Static_array [10, 20, 30, 40, 50], Static_array [1, 2 :: nat]]"
  have e0: "examine_zip_element 1 0" and e1: "\<not> examine_zip_element 1 (Suc 0)"
    by (simp_all add: examine_zip_element_def)
  have sx: "\<exists>N<length ?X. examine_zip_element 1 N"
    using e0 by (intro exI [of _ 0]) simp
  have sy: "\<exists>N<length ?Y. examine_zip_element 1 N"
    using e0 by (intro exI [of _ 0]) simp
  have EX: "{n. \<exists>N<length ?X. examine_zip_element 1 N \<and> get_static_size (?X ! N) = Some n} = {2}"
    using e0 e1 by (auto simp add: Ex_less_Suc)
  have AX: "{n. \<exists>N<length ?X. get_static_size (?X ! N) = Some n} = {2, 5}"
    by (auto simp add: Ex_less_Suc)
  have EY: "{n. \<exists>N<length ?Y. examine_zip_element 1 N \<and> get_static_size (?Y ! N) = Some n} = {5}"
    using e0 e1 by (auto simp add: Ex_less_Suc)
  have AY: "{n. \<exists>N<length ?Y. get_static_size (?Y ! N) = Some n} = {5, 2}"
    by (auto simp add: Ex_less_Suc)
  from zip_constructor_static_size_check [OF sx, THEN conjunct1]
  have x: "\<exists>z. zip_constructor 1 ?X = Inr z"
    unfolding EX AX by simp
  from zip_constructor_static_size_check [OF sy, THEN conjunct2]
  have y: "zip_constructor 1 ?Y = Inl Constraints_not_satisfied"
    unfolding EY AY by simp
  from sx x y show ?thesis
    by (intro conjI)
qed

section \<open>The claims about traversal\<close>

lemma examine_zip_element_1_0: "examine_zip_element 1 0"
  by (simp add: examine_zip_element_def)

lemma zip_deduced_equal_lengths_constructed:
  assumes "zip_deduced rN = Inr z" and "\<forall>r\<in>set rN. length (elements r) = L"
  shows "traverse z = Some (Inr (map (\<lambda>k. map (\<lambda>r. elements r ! k) rN) [0..<L]))"
proof -
  from assms(1) have req: "zip_requires 1 rN"
    and z: "z = \<lparr>end_range_selector = 1, base = map range_begin rN,
                 m_end = map (\<lambda>N. if examine_zip_element 1 N
                                   then End_iterator (range_end (rN ! N)) else Ignore)
                           [0..<length rN]\<rparr>"
    by (auto simp add: zip_deduced_def zip_constructor_view split: if_splits)
  from req have ne: "rN \<noteq> []"
    by (simp add: zip_requires_def)
  have sel: "\<exists>N<length rN. examine_zip_element 1 N \<and> length (elements (rN ! N)) = L"
    using ne assms(2) examine_zip_element_1_0 by (intro exI [of _ 0]) simp
  have rb: "map range_begin rN = map (\<lambda>r. \<lparr>underlying = elements r, position = 0\<rparr>) rN"
    by (simp add: range_begin_def)
  have "range_for
     \<lparr>end_range_selector = 1, base = map range_begin rN\<rparr>
     (map (\<lambda>N. if examine_zip_element 1 N then End_iterator (range_end (rN ! N)) else Ignore)
        [0..<length rN])
     []
   = Some (Inr ([] @ map (\<lambda>k. map (\<lambda>r. elements r ! k) rN) [0..<L]))"
    unfolding rb using sel assms(2) by (intro range_for_lockstep) simp_all
  then show ?thesis
    by (simp add: z traverse_def zip_begin_def zip_end_def)
qed

lemma zip_deduced_accepted_when_sized_by_length:
  assumes "rN \<noteq> []" and "\<forall>r\<in>set rN. length (elements r) = L"
    and "\<forall>r\<in>set rN. \<forall>n. get_static_size r = Some n \<longrightarrow> n = L"
  shows "\<exists>z. zip_deduced rN = Inr z"
proof -
  let ?E = "{n. \<exists>N<length rN. examine_zip_element 1 N \<and> get_static_size (rN ! N) = Some n}"
  let ?A = "{n. \<exists>N<length rN. get_static_size (rN ! N) = Some n}"
  have A: "?A \<subseteq> {L}"
    using assms(3) by auto
  have E: "?E \<subseteq> ?A" by auto
  have "?E = {} \<or> Min ?E \<le> Min ?A"
  proof (cases "?E = {}")
    case False
    with A E have "?E = {L}" "?A = {L}" by blast+
    then show ?thesis by simp
  qed simp
  moreover have "map get_static_size rN \<noteq> []"
    using assms(1) by simp
  ultimately have "zip_static_size_bounds_check 1 (map get_static_size rN)"
    using zip_static_size_bounds_check_sets [of "map get_static_size rN" 1]
    by (simp cong: conj_cong)
  with assms(1) have "zip_requires 1 rN"
    by (simp add: zip_requires_def)
  then show ?thesis
    by (simp add: zip_deduced_def zip_constructor_view)
qed

text \<open>
  Claim C2.  For at least one range, all of the same length \<open>L\<close>, the view built
  with the default selector (sequence 0) visits exactly \<open>L\<close> tuples, in order of
  the offset, the tuple at offset \<open>k\<close> holding the element of every sequence at
  offset \<open>k\<close>.  Every view that is constructed does so (lemma
  \<open>zip_deduced_equal_lengths_constructed\<close>), and the construction is accepted when
  every static size is the length of its range (lemma
  \<open>zip_deduced_accepted_when_sized_by_length\<close>).  The code does not construct the
  view for every such list of ranges, though: \<^verbatim>\<open>get_static_size\<close> takes the tuple
  size of a tuple-like range for its length, so an array of 5 elements zipped
  with a range of 5 elements whose tuple size is 2 is refused by the static
  size check, and no tuple is visited.
\<close>

theorem zip_deduced_refuses_tuple_like_range_of_equal_length:
  "length (elements (Static_array [1, 2, 3, 4, 5 :: nat])) = 5 \<and>
   length (elements (Tuple_like 2 [10, 20, 30, 40, 50 :: nat])) = 5 \<and>
   get_static_size (Tuple_like 2 [10, 20, 30, 40, 50 :: nat]) = Some 2 \<and>
   zip_deduced [Static_array [1, 2, 3, 4, 5 :: nat], Tuple_like 2 [10, 20, 30, 40, 50]] =
     Inl Constraints_not_satisfied"
  by code_simp

text \<open>
  Claim C3.  For a constructed view whose mask selects some range, and none of
  whose unselected ranges is shorter than the shortest selected one, the
  traversal visits exactly as many tuples as the shortest selected range is
  long.  The witness has lengths 2, 5 and 5: two tuples with only sequence 0
  selected, and two tuples with sequences 0 and 1 selected.
\<close>

theorem zip_stops_at_shortest_selected:
  assumes "zip_constructor examine_end_range rN = Inr z"
    and "selected_lengths examine_end_range rN \<noteq> []"
    and "\<forall>N<length rN. \<not> examine_zip_element examine_end_range N \<longrightarrow>
           Min (set (selected_lengths examine_end_range rN)) \<le> length (elements (rN ! N))"
  shows "traverse z =
           Some (Inr (map (\<lambda>k. map (\<lambda>r. elements r ! k) rN)
                        [0..<Min (set (selected_lengths examine_end_range rN))]))"
proof -
  define M where "M = Min (set (selected_lengths examine_end_range rN))"
  have set_eq: "set (selected_lengths examine_end_range rN) =
      {length (elements (rN ! N)) | N. N < length rN \<and> examine_zip_element examine_end_range N}"
    by (auto simp add: selected_lengths_def)
  from assms(2) have "M \<in> set (selected_lengths examine_end_range rN)"
    unfolding M_def by (intro Min_in) simp_all
  then have sel: "\<exists>N<length rN. examine_zip_element examine_end_range N \<and>
      length (elements (rN ! N)) = M"
    unfolding set_eq by auto
  have least: "\<forall>N<length rN. examine_zip_element examine_end_range N \<longrightarrow>
      M \<le> length (elements (rN ! N))"
  proof (intro allI impI)
    fix N assume "N < length rN" "examine_zip_element examine_end_range N"
    then have "length (elements (rN ! N)) \<in> set (selected_lengths examine_end_range rN)"
      unfolding set_eq by auto
    then show "M \<le> length (elements (rN ! N))"
      unfolding M_def by (intro Min_le) simp_all
  qed
  have long: "\<forall>r\<in>set rN. M \<le> length (elements r)"
  proof
    fix r assume "r \<in> set rN"
    then obtain N where "N < length rN" "r = rN ! N"
      by (auto simp add: in_set_conv_nth)
    with least assms(3) show "M \<le> length (elements r)"
      unfolding M_def [symmetric] by (cases "examine_zip_element examine_end_range N") auto
  qed
  have rb: "map range_begin rN = map (\<lambda>r. \<lparr>underlying = elements r, position = 0\<rparr>) rN"
    by (simp add: range_begin_def)
  have "range_for
     \<lparr>end_range_selector = examine_end_range, base = map range_begin rN\<rparr>
     (map (\<lambda>N. if examine_zip_element examine_end_range N
                then End_iterator (range_end (rN ! N)) else Ignore) [0..<length rN])
     []
   = Some (Inr ([] @ map (\<lambda>k. map (\<lambda>r. elements r ! k) rN) [0..<M]))"
    unfolding rb using sel least long by (intro range_for_lockstep) simp_all
  with assms(1) show ?thesis
    unfolding M_def [symmetric]
    by (auto simp add: zip_constructor_view traverse_def zip_begin_def zip_end_def
        split: if_splits)
qed

theorem zip_stops_at_shortest_selected_witness:
  "zip_constructor 1
     [Static_array [1, 2 :: nat], Static_array [10, 20, 30, 40, 50], Dynamic_range [7, 8, 9, 10, 11]] =
     Inr \<lparr>end_range_selector = 1,
          base = [\<lparr>underlying = [1, 2], position = 0\<rparr>,
                  \<lparr>underlying = [10, 20, 30, 40, 50], position = 0\<rparr>,
                  \<lparr>underlying = [7, 8, 9, 10, 11], position = 0\<rparr>],
          m_end = [End_iterator \<lparr>underlying = [1, 2], position = 2\<rparr>, Ignore, Ignore]\<rparr> \<and>
   traverse \<lparr>end_range_selector = 1,
          base = [\<lparr>underlying = [1, 2 :: nat], position = 0\<rparr>,
                  \<lparr>underlying = [10, 20, 30, 40, 50], position = 0\<rparr>,
                  \<lparr>underlying = [7, 8, 9, 10, 11], position = 0\<rparr>],
          m_end = [End_iterator \<lparr>underlying = [1, 2], position = 2\<rparr>, Ignore, Ignore]\<rparr> =
     Some (Inr [[1, 10, 7], [2, 20, 8]]) \<and>
   zip_constructor 3
     [Static_array [1, 2 :: nat], Static_array [10, 20, 30, 40, 50], Dynamic_range [7, 8, 9, 10, 11]] =
     Inr \<lparr>end_range_selector = 3,
          base = [\<lparr>underlying = [1, 2], position = 0\<rparr>,
                  \<lparr>underlying = [10, 20, 30, 40, 50], position = 0\<rparr>,
                  \<lparr>underlying = [7, 8, 9, 10, 11], position = 0\<rparr>],
          m_end = [End_iterator \<lparr>underlying = [1, 2], position = 2\<rparr>,
                   End_iterator \<lparr>underlying = [10, 20, 30, 40, 50], position = 5\<rparr>, Ignore]\<rparr> \<and>
   traverse \<lparr>end_range_selector = 3,
          base = [\<lparr>underlying = [1, 2 :: nat], position = 0\<rparr>,
                  \<lparr>underlying = [10, 20, 30, 40, 50], position = 0\<rparr>,
                  \<lparr>underlying = [7, 8, 9, 10, 11], position = 0\<rparr>],
          m_end = [End_iterator \<lparr>underlying = [1, 2], position = 2\<rparr>,
                   End_iterator \<lparr>underlying = [10, 20, 30, 40, 50], position = 5\<rparr>, Ignore]\<rparr> =
     Some (Inr [[1, 10, 7], [2, 20, 8]])"
proof -
  let ?rN = "[Static_array [1, 2 :: nat], Static_array [10, 20, 30, 40, 50],
              Dynamic_range [7, 8, 9, 10, 11]]"
  let ?z1 = "\<lparr>end_range_selector = 1,
          base = [\<lparr>underlying = [1, 2 :: nat], position = 0\<rparr>,
                  \<lparr>underlying = [10, 20, 30, 40, 50], position = 0\<rparr>,
                  \<lparr>underlying = [7, 8, 9, 10, 11], position = 0\<rparr>],
          m_end = [End_iterator \<lparr>underlying = [1, 2], position = 2\<rparr>, Ignore, Ignore]\<rparr>"
  let ?z3 = "\<lparr>end_range_selector = 3,
          base = [\<lparr>underlying = [1, 2 :: nat], position = 0\<rparr>,
                  \<lparr>underlying = [10, 20, 30, 40, 50], position = 0\<rparr>,
                  \<lparr>underlying = [7, 8, 9, 10, 11], position = 0\<rparr>],
          m_end = [End_iterator \<lparr>underlying = [1, 2], position = 2\<rparr>,
                   End_iterator \<lparr>underlying = [10, 20, 30, 40, 50], position = 5\<rparr>, Ignore]\<rparr>"
  have c1: "zip_constructor 1 ?rN = Inr ?z1" by code_simp
  have c3: "zip_constructor 3 ?rN = Inr ?z3" by code_simp
  have s1: "selected_lengths 1 ?rN = [2]" by code_simp
  have s3: "selected_lengths 3 ?rN = [2, 5]" by code_simp
  have n1: "selected_lengths 1 ?rN \<noteq> []" by (simp only: s1) simp
  have n3: "selected_lengths 3 ?rN \<noteq> []" by (simp only: s3) simp
  have m1: "Min (set (selected_lengths 1 ?rN)) = 2" by (simp only: s1) simp
  have m3: "Min (set (selected_lengths 3 ?rN)) = 2" by (simp only: s3) simp
  have u1: "\<forall>N<length ?rN. \<not> examine_zip_element 1 N \<longrightarrow>
      Min (set (selected_lengths 1 ?rN)) \<le> length (elements (?rN ! N))"
    unfolding m1 by (simp add: All_less_Suc)
  have u3: "\<forall>N<length ?rN. \<not> examine_zip_element 3 N \<longrightarrow>
      Min (set (selected_lengths 3 ?rN)) \<le> length (elements (?rN ! N))"
    unfolding m3 by (simp add: All_less_Suc)
  have t: "map (\<lambda>k. map (\<lambda>r. elements r ! k) ?rN) [0..<2] = [[1, 10, 7], [2, 20, 8]]"
    by code_simp
  from zip_stops_at_shortest_selected [OF c1 n1 u1]
  have t1: "traverse ?z1 = Some (Inr [[1, 10, 7], [2, 20, 8]])"
    by (simp only: m1 t)
  from zip_stops_at_shortest_selected [OF c3 n3 u3]
  have t3: "traverse ?z3 = Some (Inr [[1, 10, 7], [2, 20, 8]])"
    by (simp only: m3 t)
  from c1 t1 c3 t3 show ?thesis
    by (intro conjI)
qed

end
